theory Spec2Isabelle
  imports Main "HOL-Library.Word" "HOL-Library.DAList" "HOL-Library.Sublist"
begin

section \<open>The observable cell of \<^verbatim>\<open>atom.h\<close>\<close>

text \<open>
  The header defines two classes: \<^verbatim>\<open>Atom<T>\<close>, a cell holding a value and a registry of
  listeners, and \<^verbatim>\<open>Subscription<T>\<close>, a move-only handle that erases one listener from
  its cell. This theory embeds both in sequential form: every member function is a
  function on an explicit world that holds the live cells. The mutex is not modelled;
  what is kept of the two-phase protocol is its order (store and copy the registry first,
  call the listeners afterwards on the copy).
\<close>

subsection \<open>Data\<close>

text \<open>
  How a call of client code ends: it returns, or it leaves by an exception
  (\<^verbatim>\<open>std::exception_ptr\<close>, kept opaque as the type parameter \<open>'e\<close>).
\<close>

datatype 'e completion = Returned | Thrown 'e

text \<open>
  \<^verbatim>\<open>Subscription<T>\<close>: a \<^verbatim>\<open>std::weak_ptr<Atom<T>>\<close> and a \<^verbatim>\<open>uint64_t\<close>. A weak pointer is
  empty (\<open>None\<close>) or names the control block of a cell; control blocks are numbered and a
  number is never given twice. The members \<^verbatim>\<open>owner_\<close> and \<^verbatim>\<open>id_\<close> are the fields
  \<open>sub_owner\<close> and \<open>sub_id\<close>; the members \<^verbatim>\<open>value_\<close>, \<^verbatim>\<open>listeners_\<close>,
  \<^verbatim>\<open>next_id_\<close> and \<^verbatim>\<open>on_error_\<close> of the cell are the fields \<open>atom_value\<close>,
  \<open>atom_listeners\<close>, \<open>atom_next_id\<close> and \<open>atom_on_error\<close>.
\<close>

record subscription =
  sub_owner :: "nat option"
  sub_id :: "64 word"

text \<open>
  \<^verbatim>\<open>Atom<T>\<close>. The registry is a \<^verbatim>\<open>std::unordered_map<uint64_t, std::function>\<close>: keys are
  unique, which the type of association lists with distinct keys provides; the order of
  the list stands for the iteration order of the table, which the standard leaves open.
  A \<^verbatim>\<open>std::function\<close> cannot be stored as a HOL function here, because a listener acts on
  the world that contains the registry; the registry stores a name \<open>'c\<close> of the listener
  and the error sink is a name \<open>'s\<close> (\<open>None\<close> for an empty \<^verbatim>\<open>std::function\<close>). What
  the names do is given by the environment below.
\<close>

record ('v, 'c, 's) atom =
  atom_value :: 'v
  atom_listeners :: "(64 word, 'c) alist"
  atom_next_id :: "64 word"
  atom_on_error :: "'s option"

text \<open>
  The world: the cells that are alive (a cell whose last \<^verbatim>\<open>shared_ptr\<close> is gone is
  absent), the next control block number, and the state \<open>'x\<close> of the client program.
\<close>

record ('v, 'c, 's, 'x) world =
  atoms :: "nat \<Rightarrow> ('v, 'c, 's) atom option"
  fresh :: nat
  client :: 'x

text \<open>
  The environment of a cell type: what calling a listener or the error sink does to the
  world and how the call ends, and \<^verbatim>\<open>operator==\<close> of \<open>T\<close> when
  \<^verbatim>\<open>std::equality_comparable<T>\<close> holds (\<open>None\<close> when it does not, so that the
  \<^verbatim>\<open>if constexpr\<close> branches are absent). Listeners run with no lock held, so they may
  change the world in any way, the cell that is dispatching included.
\<close>

record ('v, 'c, 's, 'e, 'x) env =
  call :: "'c \<Rightarrow> 'v \<Rightarrow> ('v, 'c, 's, 'x) world \<Rightarrow> 'e completion \<times> ('v, 'c, 's, 'x) world"
  report :: "'s \<Rightarrow> 'e \<Rightarrow> ('v, 'c, 's, 'x) world \<Rightarrow> 'e completion \<times> ('v, 'c, 's, 'x) world"
  equal_T :: "('v \<Rightarrow> 'v \<Rightarrow> bool) option"

text \<open>
  What a dispatch did, in order: a listener was called under its key with a value and
  ended in some way, or the error sink was called with a captured exception and ended in
  some way. The list of events is returned beside the result; it is not part of the
  world, so client code cannot alter it.
\<close>

datatype ('v, 'c, 's, 'e) event =
  Invoked "64 word" 'c 'v "'e completion"
| Reported 's 'e "'e completion"

subsection \<open>\<^verbatim>\<open>Atom\<close>\<close>

text \<open>\<^verbatim>\<open>createAtom\<close>: \<^verbatim>\<open>make_shared\<close> of a cell with an empty registry and \<^verbatim>\<open>next_id_{0}\<close>.\<close>

definition createAtom ::
  "'v \<Rightarrow> 's option \<Rightarrow> ('v, 'c, 's, 'x) world \<Rightarrow> nat \<times> ('v, 'c, 's, 'x) world" where
  "createAtom initial onError w =
     (let p = fresh w in
      (p, w\<lparr>atoms := (atoms w)(p \<mapsto>
               \<lparr>atom_value = initial, atom_listeners = DAList.empty, atom_next_id = 0,
                atom_on_error = onError\<rparr>),
            fresh := Suc p\<rparr>))"

text \<open>The last \<^verbatim>\<open>shared_ptr\<close> to a cell goes away: the cell is destroyed.\<close>

definition destroyAtom :: "nat \<Rightarrow> ('v, 'c, 's, 'x) world \<Rightarrow> ('v, 'c, 's, 'x) world" where
  "destroyAtom p w = w\<lparr>atoms := (atoms w)(p := None)\<rparr>"

text \<open>
  The member functions take the cell as its control block number \<open>p\<close>. Calling a member
  of a cell that is not alive is not a behaviour of the program; the model returns
  \<open>None\<close> there.
\<close>

definition Atom_get :: "nat \<Rightarrow> ('v, 'c, 's, 'x) world \<Rightarrow> 'v option" where
  "Atom_get p w = (case atoms w p of None \<Rightarrow> None | Some a \<Rightarrow> Some (atom_value a))"

text \<open>One turn of the loop of \<^verbatim>\<open>notify\<close>: the \<^verbatim>\<open>try\<close> block and its handler.\<close>

definition deliver ::
  "('v, 'c, 's, 'e, 'x) env \<Rightarrow> 's option \<Rightarrow> 64 word \<times> 'c \<Rightarrow> 'v \<Rightarrow> ('v, 'c, 's, 'x) world \<Rightarrow>
   'e completion \<times> ('v, 'c, 's, 'e) event list \<times> ('v, 'c, 's, 'x) world" where
  "deliver E sink l v w =
     (case call E (snd l) v w of
        (Returned, w1) \<Rightarrow> (Returned, [Invoked (fst l) (snd l) v Returned], w1)
      | (Thrown e, w1) \<Rightarrow>
          (case sink of
             None \<Rightarrow> (Returned, [Invoked (fst l) (snd l) v (Thrown e)], w1)
           | Some s \<Rightarrow>
               (case report E s e w1 of
                  (r, w2) \<Rightarrow> (r, [Invoked (fst l) (snd l) v (Thrown e), Reported s e r], w2))))"

text \<open>
  \<^verbatim>\<open>notify\<close>: the loop over the snapshot. \<^verbatim>\<open>on_error_\<close> is assigned by the constructor only
  and the caller's \<^verbatim>\<open>shared_ptr\<close> keeps the cell alive during the call, so the field that
  the handler reads is passed as \<open>sink\<close>. An exception of the sink is raised inside the
  handler, which has no \<^verbatim>\<open>try\<close> of its own: it leaves the loop and the function.
\<close>

fun notify ::
  "('v, 'c, 's, 'e, 'x) env \<Rightarrow> 's option \<Rightarrow> (64 word \<times> 'c) list \<Rightarrow> 'v \<Rightarrow> ('v, 'c, 's, 'x) world \<Rightarrow>
   'e completion \<times> ('v, 'c, 's, 'e) event list \<times> ('v, 'c, 's, 'x) world" where
  "notify E sink [] v w = (Returned, [], w)"
| "notify E sink (l # rest) v w =
     (case deliver E sink l v w of
        (Thrown e, tr, w1) \<Rightarrow> (Thrown e, tr, w1)
      | (Returned, tr, w1) \<Rightarrow>
          (case notify E sink rest v w1 of (r, tr', w2) \<Rightarrow> (r, tr @ tr', w2)))"

text \<open>The equality test of \<^verbatim>\<open>set\<close> and \<^verbatim>\<open>update\<close>, present only for a comparable \<open>T\<close>.\<close>

definition skips :: "('v, 'c, 's, 'e, 'x) env \<Rightarrow> 'v \<Rightarrow> 'v \<Rightarrow> bool" where
  "skips E proposed current =
     (case equal_T E of None \<Rightarrow> False | Some eq \<Rightarrow> eq proposed current)"

text \<open>The end of the locked block: store, copy the registry, copy the value, dispatch.\<close>

definition store_and_notify ::
  "('v, 'c, 's, 'e, 'x) env \<Rightarrow> nat \<Rightarrow> ('v, 'c, 's) atom \<Rightarrow> 'v \<Rightarrow> ('v, 'c, 's, 'x) world \<Rightarrow>
   'e completion \<times> ('v, 'c, 's, 'e) event list \<times> ('v, 'c, 's, 'x) world" where
  "store_and_notify E p a v w =
     (let a' = a\<lparr>atom_value := v\<rparr>;
          snapshot = DAList.impl_of (atom_listeners a');
          snapshotValue = atom_value a'
      in notify E (atom_on_error a') snapshot snapshotValue (w\<lparr>atoms := (atoms w)(p \<mapsto> a')\<rparr>))"

definition Atom_set ::
  "('v, 'c, 's, 'e, 'x) env \<Rightarrow> nat \<Rightarrow> 'v \<Rightarrow> ('v, 'c, 's, 'x) world \<Rightarrow>
   ('e completion \<times> ('v, 'c, 's, 'e) event list \<times> ('v, 'c, 's, 'x) world) option" where
  "Atom_set E p v w =
     (case atoms w p of
        None \<Rightarrow> None
      | Some a \<Rightarrow>
          if skips E v (atom_value a) then Some (Returned, [], w)
          else Some (store_and_notify E p a v w))"

text \<open>
  \<^verbatim>\<open>update\<close>. The updater runs under the exclusive lock, where entering the same cell again
  is a deadlock, so it is a function of the current value and of the client state: it
  returns the next value (\<open>Inr\<close>) or throws (\<open>Inl\<close>), and the exception leaves
  \<^verbatim>\<open>update\<close> before the comparison and the store.
\<close>

definition Atom_update ::
  "('v, 'c, 's, 'e, 'x) env \<Rightarrow> nat \<Rightarrow> ('v \<Rightarrow> 'x \<Rightarrow> ('e + 'v) \<times> 'x) \<Rightarrow> ('v, 'c, 's, 'x) world \<Rightarrow>
   ('e completion \<times> ('v, 'c, 's, 'e) event list \<times> ('v, 'c, 's, 'x) world) option" where
  "Atom_update E p updater w =
     (case atoms w p of
        None \<Rightarrow> None
      | Some a \<Rightarrow>
          (case updater (atom_value a) (client w) of
             (Inl e, x) \<Rightarrow> Some (Thrown e, [], w\<lparr>client := x\<rparr>)
           | (Inr newValue, x) \<Rightarrow>
               if skips E newValue (atom_value a) then Some (Returned, [], w\<lparr>client := x\<rparr>)
               else Some (store_and_notify E p a newValue (w\<lparr>client := x\<rparr>))))"

text \<open>\<^verbatim>\<open>subscribe\<close>: \<^verbatim>\<open>next_id_++\<close> on a 64-bit counter, then \<^verbatim>\<open>listeners_[id] = callback\<close>.\<close>

definition Atom_subscribe ::
  "nat \<Rightarrow> 'c \<Rightarrow> ('v, 'c, 's, 'x) world \<Rightarrow> (subscription \<times> ('v, 'c, 's, 'x) world) option" where
  "Atom_subscribe p callback w =
     (case atoms w p of
        None \<Rightarrow> None
      | Some a \<Rightarrow>
          (let i = atom_next_id a;
               a' = a\<lparr>atom_next_id := atom_next_id a + 1,
                      atom_listeners := DAList.update i callback (atom_listeners a)\<rparr>
           in Some (\<lparr>sub_owner = Some p, sub_id = i\<rparr>, w\<lparr>atoms := (atoms w)(p \<mapsto> a')\<rparr>)))"

subsection \<open>\<^verbatim>\<open>Subscription\<close>\<close>

text \<open>\<^verbatim>\<open>owner_.lock()\<close>: the cell, if the pointer is not empty and the cell is alive.\<close>

definition lock ::
  "nat option \<Rightarrow> ('v, 'c, 's, 'x) world \<Rightarrow> (nat \<times> ('v, 'c, 's) atom) option" where
  "lock owner w =
     (case owner of
        None \<Rightarrow> None
      | Some p \<Rightarrow> (case atoms w p of None \<Rightarrow> None | Some a \<Rightarrow> Some (p, a)))"

text \<open>
  The block that the destructor, \<^verbatim>\<open>unsubscribe\<close> and the move assignment share:
  \<^verbatim>\<open>if (auto atom = owner_.lock()) { ...; atom->listeners_.erase(id_); }\<close>.
\<close>

definition erase_listener ::
  "subscription \<Rightarrow> ('v, 'c, 's, 'x) world \<Rightarrow> ('v, 'c, 's, 'x) world" where
  "erase_listener s w =
     (case lock (sub_owner s) w of
        None \<Rightarrow> w
      | Some (p, a) \<Rightarrow>
          w\<lparr>atoms := (atoms w)(p \<mapsto> a\<lparr>atom_listeners := DAList.delete (sub_id s) (atom_listeners a)\<rparr>)\<rparr>)"

text \<open>The constructor \<^verbatim>\<open>Subscription(owner, id)\<close>; it is public.\<close>

definition Subscription :: "nat option \<Rightarrow> 64 word \<Rightarrow> subscription" where
  "Subscription owner i = \<lparr>sub_owner = owner, sub_id = i\<rparr>"

text \<open>The destructor; the object is gone afterwards, so only the world is returned.\<close>

definition Subscription_dtor ::
  "subscription \<Rightarrow> ('v, 'c, 's, 'x) world \<Rightarrow> ('v, 'c, 's, 'x) world" where
  "Subscription_dtor s w = erase_listener s w"

text \<open>\<^verbatim>\<open>unsubscribe\<close>: the same block, then \<^verbatim>\<open>owner_.reset()\<close>.\<close>

definition unsubscribe ::
  "subscription \<Rightarrow> ('v, 'c, 's, 'x) world \<Rightarrow> subscription \<times> ('v, 'c, 's, 'x) world" where
  "unsubscribe s w = (s\<lparr>sub_owner := None\<rparr>, erase_listener s w)"

text \<open>
  The move constructor returns the new object and what is left of \<open>other\<close>: moving a
  \<^verbatim>\<open>weak_ptr\<close> empties its source, and the body writes \<open>0\<close> to the source's id.
\<close>

definition Subscription_move :: "subscription \<Rightarrow> subscription \<times> subscription" where
  "Subscription_move other =
     (\<lparr>sub_owner = sub_owner other, sub_id = sub_id other\<rparr>, other\<lparr>sub_owner := None, sub_id := 0\<rparr>)"

text \<open>
  The move assignment. Its right-hand side is the assigned object itself
  (\<^verbatim>\<open>this == &other\<close>) or another object; the guard makes the first case do nothing.
\<close>

datatype rhs = Self | Other subscription

fun Subscription_move_assign ::
  "subscription \<Rightarrow> rhs \<Rightarrow> ('v, 'c, 's, 'x) world \<Rightarrow> subscription \<times> rhs \<times> ('v, 'c, 's, 'x) world" where
  "Subscription_move_assign this Self w = (this, Self, w)"
| "Subscription_move_assign this (Other other) w =
     (let w' = erase_listener this w
      in (this\<lparr>sub_owner := sub_owner other, sub_id := sub_id other\<rparr>,
          Other (other\<lparr>sub_owner := None, sub_id := 0\<rparr>), w'))"

subsection \<open>Reading a world and a dispatch\<close>

text \<open>The registry of a cell as the list of its entries, and the sink it was built with.\<close>

definition registry :: "nat \<Rightarrow> ('v, 'c, 's, 'x) world \<Rightarrow> (64 word \<times> 'c) list" where
  "registry p w =
     (case atoms w p of None \<Rightarrow> [] | Some a \<Rightarrow> DAList.impl_of (atom_listeners a))"

definition error_sink :: "nat \<Rightarrow> ('v, 'c, 's, 'x) world \<Rightarrow> 's option" where
  "error_sink p w = (case atoms w p of None \<Rightarrow> None | Some a \<Rightarrow> atom_on_error a)"

text \<open>The cell is alive and holds no listener under the key.\<close>

definition unregistered :: "nat \<Rightarrow> 64 word \<Rightarrow> ('v, 'c, 's, 'x) world \<Rightarrow> bool" where
  "unregistered p i w =
     (case atoms w p of
        None \<Rightarrow> False
      | Some a \<Rightarrow> i \<notin> fst ` set (DAList.impl_of (atom_listeners a)))"

text \<open>
  From the events of a dispatch: the calls of listeners (key, listener, value received),
  the exceptions that listeners threw, the calls of the sink (sink, exception given),
  and how each call of the sink ended.
\<close>

fun invocations :: "('v, 'c, 's, 'e) event list \<Rightarrow> (64 word \<times> 'c \<times> 'v) list" where
  "invocations [] = []"
| "invocations (Invoked i c v r # tr) = (i, c, v) # invocations tr"
| "invocations (Reported s e r # tr) = invocations tr"

fun failures :: "('v, 'c, 's, 'e) event list \<Rightarrow> 'e list" where
  "failures [] = []"
| "failures (Invoked i c v (Thrown e) # tr) = e # failures tr"
| "failures (Invoked i c v Returned # tr) = failures tr"
| "failures (Reported s e r # tr) = failures tr"

fun reports :: "('v, 'c, 's, 'e) event list \<Rightarrow> ('s \<times> 'e) list" where
  "reports [] = []"
| "reports (Invoked i c v r # tr) = reports tr"
| "reports (Reported s e r # tr) = (s, e) # reports tr"

fun sink_outcomes :: "('v, 'c, 's, 'e) event list \<Rightarrow> 'e completion list" where
  "sink_outcomes [] = []"
| "sink_outcomes (Invoked i c v r # tr) = sink_outcomes tr"
| "sink_outcomes (Reported s e r # tr) = r # sink_outcomes tr"

text \<open>One call with the value \<open>v\<close> for each entry of a snapshot, in its order.\<close>

definition deliveries :: "(64 word \<times> 'c) list \<Rightarrow> 'v \<Rightarrow> (64 word \<times> 'c \<times> 'v) list" where
  "deliveries snapshot v = map (\<lambda>l. (fst l, snd l, v)) snapshot"

subsection \<open>Conditions on the client code\<close>


text \<open>Neither a listener nor the sink destroys the cell \<open>p\<close> or registers under \<open>i\<close>.\<close>

definition client_keeps_unregistered ::
  "('v, 'c, 's, 'e, 'x) env \<Rightarrow> nat \<Rightarrow> 64 word \<Rightarrow> bool" where
  "client_keeps_unregistered E p i =
     ((\<forall>c v w. unregistered p i w \<longrightarrow> unregistered p i (snd (call E c v w))) \<and>
      (\<forall>s e w. unregistered p i w \<longrightarrow> unregistered p i (snd (report E s e w))))"


subsection \<open>Sequences of calls\<close>

text \<open>An updater that is a function: it returns and leaves the client state alone.\<close>

definition total_updater :: "('v \<Rightarrow> 'v) \<Rightarrow> 'v \<Rightarrow> 'x \<Rightarrow> ('e + 'v) \<times> 'x" where
  "total_updater f v x = (Inr (f v), x)"


text \<open>A call of \<^verbatim>\<open>set\<close> or of \<^verbatim>\<open>update\<close>, and a sequence of them with all their events.\<close>

datatype ('v, 'e, 'x) mutation = Write 'v | Amend "'v \<Rightarrow> 'x \<Rightarrow> ('e + 'v) \<times> 'x"

fun perform ::
  "('v, 'c, 's, 'e, 'x) env \<Rightarrow> nat \<Rightarrow> ('v, 'e, 'x) mutation \<Rightarrow> ('v, 'c, 's, 'x) world \<Rightarrow>
   ('e completion \<times> ('v, 'c, 's, 'e) event list \<times> ('v, 'c, 's, 'x) world) option" where
  "perform E p (Write v) w = Atom_set E p v w"
| "perform E p (Amend f) w = Atom_update E p f w"

fun writes ::
  "('v, 'c, 's, 'e, 'x) env \<Rightarrow> nat \<Rightarrow> ('v, 'e, 'x) mutation list \<Rightarrow> ('v, 'c, 's, 'x) world \<Rightarrow>
   (('v, 'c, 's, 'e) event list \<times> ('v, 'c, 's, 'x) world) option" where
  "writes E p [] w = Some ([], w)"
| "writes E p (x # xs) w =
     (case perform E p x w of
        None \<Rightarrow> None
      | Some (r, tr, w1) \<Rightarrow>
          (case writes E p xs w1 of
             None \<Rightarrow> None
           | Some (tr', w2) \<Rightarrow> Some (tr @ tr', w2)))"

subsection \<open>A client program for the examples\<close>

text \<open>
  Cells of integers whose client state is the list of values that a recording listener
  has received. The listeners: \<open>Counter\<close> records its argument; \<open>Bomb\<close> throws
  \<open>''boom''\<close>; \<open>Joiner\<close> subscribes a further \<open>Counter\<close> to the cell \<open>0\<close> and keeps its
  handle; \<open>Rewriter\<close> calls \<^verbatim>\<open>set(99)\<close> on the cell \<open>0\<close> unless it receives \<open>99\<close>. The
  sinks: \<open>Logger\<close> returns; \<open>Rethrower\<close> rethrows what it is given and does not catch
  it; \<open>Catcher\<close> returns when it is given \<open>''boom''\<close> and rethrows anything else, as the
  handlers of \<^verbatim>\<open>main.cpp\<close> and \<^verbatim>\<open>tests.cpp\<close> return on a \<^verbatim>\<open>std::exception\<close> and let
  any other exception escape.
\<close>

datatype demo_listener = Counter | Bomb | Joiner | Rewriter

datatype demo_sink = Logger | Rethrower | Catcher

type_synonym demo_world = "(int, demo_listener, demo_sink, int list) world"

type_synonym demo_env = "(int, demo_listener, demo_sink, string, int list) env"

fun demo_report :: "demo_sink \<Rightarrow> string \<Rightarrow> demo_world \<Rightarrow> string completion \<times> demo_world" where
  "demo_report Logger e w = (Returned, w)"
| "demo_report Rethrower e w = (Thrown e, w)"
| "demo_report Catcher e w = (if e = ''boom'' then (Returned, w) else (Thrown e, w))"

text \<open>The listeners that leave the cell alone.\<close>

fun plain_call :: "demo_listener \<Rightarrow> int \<Rightarrow> demo_world \<Rightarrow> string completion \<times> demo_world" where
  "plain_call Counter v w = (Returned, w\<lparr>client := client w @ [v]\<rparr>)"
| "plain_call Bomb v w = (Thrown ''boom'', w)"
| "plain_call Joiner v w = (Returned, w)"
| "plain_call Rewriter v w = (Returned, w)"

definition plain_env :: demo_env where
  "plain_env = \<lparr>call = plain_call, report = demo_report, equal_T = Some (=)\<rparr>"

text \<open>With the listener that subscribes during a dispatch.\<close>

fun base_call :: "demo_listener \<Rightarrow> int \<Rightarrow> demo_world \<Rightarrow> string completion \<times> demo_world" where
  "base_call Joiner v w =
     (case Atom_subscribe 0 Counter w of
        None \<Rightarrow> (Returned, w)
      | Some (h, w') \<Rightarrow> (Returned, w'))"
| "base_call c v w = plain_call c v w"

definition base_env :: demo_env where
  "base_env = \<lparr>call = base_call, report = demo_report, equal_T = Some (=)\<rparr>"

text \<open>
  With the listener that writes during a dispatch. Its inner \<^verbatim>\<open>set(99)\<close> dispatches
  \<open>99\<close>, on which the same listener does nothing, so one level of nesting is all there is.
\<close>

fun demo_call :: "demo_listener \<Rightarrow> int \<Rightarrow> demo_world \<Rightarrow> string completion \<times> demo_world" where
  "demo_call Rewriter v w =
     (if v = 99 then (Returned, w)
      else case Atom_set base_env 0 99 w of
             None \<Rightarrow> (Returned, w)
           | Some (r, tr, w') \<Rightarrow> (r, w'))"
| "demo_call c v w = base_call c v w"

definition demo_env :: demo_env where
  "demo_env = \<lparr>call = demo_call, report = demo_report, equal_T = Some (=)\<rparr>"

text \<open>
  A world with one cell, built by \<^verbatim>\<open>createAtom\<close> with the value \<open>0\<close> and one call of
  \<^verbatim>\<open>subscribe\<close> for each listener of a list; the client keeps the handles.
\<close>

definition world0 :: demo_world where
  "world0 = \<lparr>atoms = (\<lambda>p. None), fresh = 0, client = []\<rparr>"

fun subscribe_all :: "nat \<Rightarrow> 'c list \<Rightarrow> ('v, 'c, 's, 'x) world \<Rightarrow> ('v, 'c, 's, 'x) world" where
  "subscribe_all p [] w = w"
| "subscribe_all p (c # cs) w =
     (case Atom_subscribe p c w of None \<Rightarrow> w | Some (h, w') \<Rightarrow> subscribe_all p cs w')"

definition demo_world :: "demo_sink option \<Rightarrow> demo_listener list \<Rightarrow> demo_world" where
  "demo_world sink cs = subscribe_all 0 cs (snd (createAtom 0 sink world0))"

text \<open>Two updaters of the client: one adds five, one throws.\<close>

definition add_five :: "int \<Rightarrow> int list \<Rightarrow> (string + int) \<times> int list" where
  "add_five v x = (Inr (v + 5), x)"

definition failing_updater :: "int \<Rightarrow> int list \<Rightarrow> (string + int) \<times> int list" where
  "failing_updater v x = (Inl ''bad update'', x)"









section \<open>Properties of the dispatch\<close>

lemma invocations_append: "invocations (tr @ tr') = invocations tr @ invocations tr'"
  by (induction tr rule: invocations.induct) simp_all

lemma failures_append: "failures (tr @ tr') = failures tr @ failures tr'"
  by (induction tr rule: failures.induct) simp_all

lemma reports_append: "reports (tr @ tr') = reports tr @ reports tr'"
  by (induction tr rule: reports.induct) simp_all

lemma sink_outcomes_append: "sink_outcomes (tr @ tr') = sink_outcomes tr @ sink_outcomes tr'"
  by (induction tr rule: sink_outcomes.induct) simp_all

lemma deliveries_keys: "map fst (deliveries xs v) = map fst xs"
  by (simp add: deliveries_def comp_def)

lemma alive_cell:
  "Atom_get p w = Some u \<Longrightarrow>
   \<exists>a. atoms w p = Some a \<and> atom_value a = u \<and>
       registry p w = DAList.impl_of (atom_listeners a) \<and> error_sink p w = atom_on_error a"
  by (auto simp: Atom_get_def registry_def error_sink_def split: option.splits)

text \<open>One turn of the loop calls one listener; the sink is called once for each failure.\<close>

lemma deliver_invocations:
  "deliver E sink l v w = (r, tr, w') \<Longrightarrow> invocations tr = [(fst l, snd l, v)]"
  by (auto simp: deliver_def split: prod.splits completion.splits option.splits)

lemma deliver_reports:
  "deliver E sink l v w = (r, tr, w') \<Longrightarrow>
   reports tr = (case sink of None \<Rightarrow> [] | Some s \<Rightarrow> map (Pair s) (failures tr))"
  by (auto simp: deliver_def split: prod.splits completion.splits option.splits)

lemma deliver_outcome:
  "deliver E sink l v w = (r, tr, w') \<Longrightarrow> r = Returned \<or> r \<in> set (sink_outcomes tr)"
  by (auto simp: deliver_def split: prod.splits completion.splits option.splits)

text \<open>The loop calls the entries of the snapshot in order and stops only at a throwing sink.\<close>

lemma notify_invocations_prefix:
  "notify E sink xs v w = (r, tr, w') \<Longrightarrow> prefix (invocations tr) (deliveries xs v)"
proof (induction xs arbitrary: w r tr w')
  case Nil
  then show ?case by (simp add: deliveries_def)
next
  case (Cons l rest)
  obtain r1 tr1 w1 where d: "deliver E sink l v w = (r1, tr1, w1)"
    by (cases "deliver E sink l v w") auto
  note inv1 = deliver_invocations [OF d]
  show ?case
  proof (cases r1)
    case Returned
    obtain r2 tr2 w2 where n: "notify E sink rest v w1 = (r2, tr2, w2)"
      by (cases "notify E sink rest v w1") auto
    from Cons.prems d Returned n have "tr = tr1 @ tr2" by simp
    with Cons.IH [OF n] inv1 show ?thesis
      by (simp add: invocations_append deliveries_def)
  next
    case (Thrown e)
    with Cons.prems d have "tr = tr1" by simp
    with inv1 show ?thesis by (simp add: deliveries_def)
  qed
qed

lemma notify_invocations_all:
  "notify E sink xs v w = (Returned, tr, w') \<Longrightarrow> invocations tr = deliveries xs v"
proof (induction xs arbitrary: w tr w')
  case Nil
  then show ?case by (simp add: deliveries_def)
next
  case (Cons l rest)
  obtain r1 tr1 w1 where d: "deliver E sink l v w = (r1, tr1, w1)"
    by (cases "deliver E sink l v w") auto
  note inv1 = deliver_invocations [OF d]
  show ?case
  proof (cases r1)
    case Returned
    obtain r2 tr2 w2 where n: "notify E sink rest v w1 = (r2, tr2, w2)"
      by (cases "notify E sink rest v w1") auto
    from Cons.prems d Returned n have eq: "tr = tr1 @ tr2" "r2 = Returned" by simp_all
    with Cons.IH [of w1 tr2 w2] n inv1 show ?thesis
      by (simp add: invocations_append deliveries_def)
  next
    case (Thrown e)
    with Cons.prems d show ?thesis by simp
  qed
qed

lemma notify_reports:
  "notify E sink xs v w = (r, tr, w') \<Longrightarrow>
   reports tr = (case sink of None \<Rightarrow> [] | Some s \<Rightarrow> map (Pair s) (failures tr))"
proof (induction xs arbitrary: w r tr w')
  case Nil
  then show ?case by (simp split: option.splits)
next
  case (Cons l rest)
  obtain r1 tr1 w1 where d: "deliver E sink l v w = (r1, tr1, w1)"
    by (cases "deliver E sink l v w") auto
  note rep1 = deliver_reports [OF d]
  show ?case
  proof (cases r1)
    case Returned
    obtain r2 tr2 w2 where n: "notify E sink rest v w1 = (r2, tr2, w2)"
      by (cases "notify E sink rest v w1") auto
    from Cons.prems d Returned n have "tr = tr1 @ tr2" by simp
    with Cons.IH [OF n] rep1 show ?thesis
      by (simp add: reports_append failures_append split: option.splits)
  next
    case (Thrown e)
    with Cons.prems d have tr: "tr = tr1" by simp
    from rep1 show ?thesis unfolding tr .
  qed
qed

text \<open>What leaves the loop as an exception is what a call of the sink has thrown.\<close>

lemma notify_outcome:
  "notify E sink xs v w = (r, tr, w') \<Longrightarrow> r = Returned \<or> r \<in> set (sink_outcomes tr)"
proof (induction xs arbitrary: w r tr w')
  case Nil
  then show ?case by simp
next
  case (Cons l rest)
  obtain r1 tr1 w1 where d: "deliver E sink l v w = (r1, tr1, w1)"
    by (cases "deliver E sink l v w") auto
  note out1 = deliver_outcome [OF d]
  show ?case
  proof (cases r1)
    case Returned
    obtain r2 tr2 w2 where n: "notify E sink rest v w1 = (r2, tr2, w2)"
      by (cases "notify E sink rest v w1") auto
    from Cons.prems d Returned n have "tr = tr1 @ tr2" "r = r2" by simp_all
    with Cons.IH [OF n] show ?thesis by (auto simp: sink_outcomes_append)
  next
    case (Thrown e)
    with Cons.prems d have "tr = tr1" "r = r1" by simp_all
    with out1 show ?thesis by simp
  qed
qed

lemma notify_sink_calls_return:
  assumes "notify E sink xs v w = (r, tr, w')"
    and "\<forall>x \<in> set (sink_outcomes tr). x = Returned"
  shows "r = Returned"
  using notify_outcome [OF assms(1)] assms(2) by blast

lemma prefix_distinct_keys:
  assumes p: "prefix ys (deliveries xs v)" and d: "distinct (map fst xs)"
  shows "distinct (map fst ys)"
proof -
  from p obtain zs where "deliveries xs v = ys @ zs" by (auto simp: prefix_def)
  then have "map fst xs = map fst ys @ map fst zs"
    using deliveries_keys [of xs v] by simp
  with d show ?thesis by simp
qed

lemma prefix_deliveries_keys:
  assumes "prefix ys (deliveries xs v)"
  shows "fst ` set ys \<subseteq> fst ` set xs"
proof -
  from assms have "set ys \<subseteq> set (deliveries xs v)" by (rule set_mono_prefix)
  then have "fst ` set ys \<subseteq> fst ` set (deliveries xs v)" by blast
  also have "fst ` set (deliveries xs v) = fst ` set xs"
    by (simp add: deliveries_def image_comp comp_def)
  finally show ?thesis .
qed

text \<open>The same for the store followed by the dispatch.\<close>

lemma store_and_notify_dispatch:
  assumes "store_and_notify E p a v w = (r, tr, w')"
  shows "prefix (invocations tr) (deliveries (DAList.impl_of (atom_listeners a)) v) \<and>
         distinct (map fst (invocations tr)) \<and>
         (r = Returned \<longrightarrow> invocations tr = deliveries (DAList.impl_of (atom_listeners a)) v)"
proof -
  from assms have n: "notify E (atom_on_error a) (DAList.impl_of (atom_listeners a)) v
                  (w\<lparr>atoms := (atoms w)(p \<mapsto> a\<lparr>atom_value := v\<rparr>)\<rparr>) = (r, tr, w')"
    by (simp add: store_and_notify_def)
  have pre: "prefix (invocations tr) (deliveries (DAList.impl_of (atom_listeners a)) v)"
    by (rule notify_invocations_prefix [OF n])
  have dis: "distinct (map fst (invocations tr))"
    by (rule prefix_distinct_keys [OF pre]) simp
  have "r = Returned \<Longrightarrow> invocations tr = deliveries (DAList.impl_of (atom_listeners a)) v"
    using n by (auto dest: notify_invocations_all)
  with pre dis show ?thesis by blast
qed

lemma store_and_notify_failures:
  assumes "store_and_notify E p a v w = (r, tr, w')"
  shows "reports tr =
           (case atom_on_error a of None \<Rightarrow> [] | Some s \<Rightarrow> map (Pair s) (failures tr)) \<and>
         ((\<forall>x \<in> set (sink_outcomes tr). x = Returned) \<longrightarrow>
            r = Returned \<and> invocations tr = deliveries (DAList.impl_of (atom_listeners a)) v)"
proof -
  from assms have n: "notify E (atom_on_error a) (DAList.impl_of (atom_listeners a)) v
                  (w\<lparr>atoms := (atoms w)(p \<mapsto> a\<lparr>atom_value := v\<rparr>)\<rparr>) = (r, tr, w')"
    by (simp add: store_and_notify_def)
  have rep: "reports tr =
               (case atom_on_error a of None \<Rightarrow> [] | Some s \<Rightarrow> map (Pair s) (failures tr))"
    by (rule notify_reports [OF n])
  have "r = Returned \<and> invocations tr = deliveries (DAList.impl_of (atom_listeners a)) v"
    if ok: "\<forall>x \<in> set (sink_outcomes tr). x = Returned"
  proof -
    from notify_sink_calls_return [OF n ok] have "r = Returned" .
    with n show ?thesis by (auto dest: notify_invocations_all)
  qed
  with rep show ?thesis by blast
qed

text \<open>What an accepted \<^verbatim>\<open>set\<close> and an accepted \<^verbatim>\<open>update\<close> come to.\<close>

lemma accepted_set:
  "atoms w p = Some a \<Longrightarrow> \<not> skips E v (atom_value a) \<Longrightarrow>
   Atom_set E p v w = Some (store_and_notify E p a v w)"
  by (simp add: Atom_set_def)

lemma accepted_update:
  "atoms w p = Some a \<Longrightarrow> updater (atom_value a) (client w) = (Inr v, x) \<Longrightarrow>
   \<not> skips E v (atom_value a) \<Longrightarrow>
   Atom_update E p updater w = Some (store_and_notify E p a v (w\<lparr>client := x\<rparr>))"
  by (simp add: Atom_update_def)

text \<open>Unfolding the example worlds.\<close>

lemmas demo_simps =
  demo_world_def world0_def createAtom_def destroyAtom_def Atom_subscribe_def Atom_get_def
  Atom_set_def Atom_update_def store_and_notify_def deliver_def skips_def Let_def
  registry_def error_sink_def unregistered_def
  demo_env_def base_env_def plain_env_def add_five_def failing_updater_def
  DAList.update.rep_eq DAList.empty.rep_eq DAList.delete.rep_eq





text \<open>The shared block of the handle erases one key of one cell, if that cell is alive.\<close>

lemma erase_listener_registry:
  "registry q (erase_listener s w) =
     (if sub_owner s = Some q then AList.delete (sub_id s) (registry q w) else registry q w)"
  by (auto simp: erase_listener_def lock_def registry_def DAList.delete.rep_eq
           split: option.splits)

lemma erase_listener_inert:
  "sub_owner s = None \<or> (sub_owner s = Some p \<and> atoms w p = None) \<Longrightarrow> erase_listener s w = w"
  by (auto simp: erase_listener_def lock_def)

lemma erase_listener_released: "erase_listener (s\<lparr>sub_owner := None\<rparr>) w = w"
  by (simp add: erase_listener_def lock_def)

lemma erase_listener_unregistered:
  "sub_owner s = Some p \<Longrightarrow> atoms w p = Some a \<Longrightarrow> unregistered p (sub_id s) (erase_listener s w)"
  by (simp add: erase_listener_def lock_def unregistered_def DAList.delete.rep_eq
        delete_notin_dom)

text \<open>
  A key that is not in the registry at the store is not called by the dispatch, and stays
  out of the registry when the client code does not register it.
\<close>

lemma deliver_keeps_unregistered:
  assumes k: "client_keeps_unregistered E p i" and u: "unregistered p i w"
  shows "unregistered p i (snd (snd (deliver E sink l v w)))"
proof -
  from k have c: "\<And>c v w. unregistered p i w \<Longrightarrow> unregistered p i (snd (call E c v w))"
    and r: "\<And>s e w. unregistered p i w \<Longrightarrow> unregistered p i (snd (report E s e w))"
    by (simp_all add: client_keeps_unregistered_def)
  obtain r1 w1 where k1: "call E (snd l) v w = (r1, w1)"
    by (cases "call E (snd l) v w") auto
  with c [OF u, of "snd l" v] have u1: "unregistered p i w1" by simp
  show ?thesis
  proof (cases r1)
    case Returned
    with k1 u1 show ?thesis by (simp add: deliver_def)
  next
    case (Thrown e)
    show ?thesis
    proof (cases sink)
      case None
      with k1 Thrown u1 show ?thesis by (simp add: deliver_def)
    next
      case (Some s)
      obtain r2 w2 where k2: "report E s e w1 = (r2, w2)"
        by (cases "report E s e w1") auto
      with r [OF u1, of s e] have "unregistered p i w2" by simp
      with k1 Thrown Some k2 show ?thesis by (simp add: deliver_def)
    qed
  qed
qed

lemma notify_keeps_unregistered:
  assumes k: "client_keeps_unregistered E p i"
  shows "unregistered p i w \<Longrightarrow> unregistered p i (snd (snd (notify E sink xs v w)))"
proof (induction xs arbitrary: w)
  case Nil
  then show ?case by simp
next
  case (Cons l rest)
  obtain r1 tr1 w1 where d: "deliver E sink l v w = (r1, tr1, w1)"
    by (cases "deliver E sink l v w") auto
  with deliver_keeps_unregistered [OF k Cons.prems, of sink l v] have u1: "unregistered p i w1"
    by simp
  show ?case
  proof (cases r1)
    case Returned
    obtain r2 tr2 w2 where n: "notify E sink rest v w1 = (r2, tr2, w2)"
      by (cases "notify E sink rest v w1") auto
    with Cons.IH [OF u1] have "unregistered p i w2" by simp
    with d Returned n show ?thesis by simp
  next
    case (Thrown e)
    with d u1 show ?thesis by simp
  qed
qed

lemma store_and_notify_not_invoked:
  assumes i: "i \<notin> fst ` set (DAList.impl_of (atom_listeners a))"
  shows "i \<notin> fst ` set (invocations (fst (snd (store_and_notify E p a v w))))"
proof -
  obtain r tr w' where s: "store_and_notify E p a v w = (r, tr, w')"
    by (cases "store_and_notify E p a v w") auto
  from store_and_notify_dispatch [OF s]
  have "prefix (invocations tr) (deliveries (DAList.impl_of (atom_listeners a)) v)" by blast
  then have "fst ` set (invocations tr) \<subseteq> fst ` set (DAList.impl_of (atom_listeners a))"
    by (rule prefix_deliveries_keys)
  with i s show ?thesis by auto
qed

lemma store_and_notify_keeps_unregistered:
  assumes k: "client_keeps_unregistered E p i"
    and a: "atoms w p = Some a"
    and u: "unregistered p i w"
  shows "unregistered p i (snd (snd (store_and_notify E p a v w)))"
proof -
  from a u have "unregistered p i (w\<lparr>atoms := (atoms w)(p \<mapsto> a\<lparr>atom_value := v\<rparr>)\<rparr>)"
    by (simp add: unregistered_def)
  from notify_keeps_unregistered [OF k this] show ?thesis
    by (simp add: store_and_notify_def)
qed

lemma perform_cases:
  assumes a: "atoms w p = Some a"
  shows "(\<exists>w'. perform E p x w = Some (Returned, [], w') \<and> atoms w' = atoms w) \<or>
         (\<exists>e w'. perform E p x w = Some (Thrown e, [], w') \<and> atoms w' = atoms w) \<or>
         (\<exists>v w'. atoms w' = atoms w \<and> perform E p x w = Some (store_and_notify E p a v w'))"
proof (cases x)
  case (Write v)
  with a show ?thesis by (cases "skips E v (atom_value a)") (auto simp: Atom_set_def)
next
  case (Amend f)
  obtain res y where f: "f (atom_value a) (client w) = (res, y)"
    by (cases "f (atom_value a) (client w)") auto
  show ?thesis
  proof (cases res)
    case (Inl e)
    with a f Amend show ?thesis by (simp add: Atom_update_def)
  next
    case (Inr v)
    show ?thesis
    proof (cases "skips E v (atom_value a)")
      case True
      with a f Inr Amend show ?thesis by (simp add: Atom_update_def)
    next
      case False
      have "atoms (w\<lparr>client := y\<rparr>) = atoms w" by simp
      moreover from a f Inr False Amend
      have "perform E p x w = Some (store_and_notify E p a v (w\<lparr>client := y\<rparr>))"
        by (simp add: Atom_update_def)
      ultimately show ?thesis by blast
    qed
  qed
qed

lemma perform_not_invoked:
  assumes u: "unregistered p i w"
  shows "\<exists>r tr w'. perform E p x w = Some (r, tr, w') \<and> i \<notin> fst ` set (invocations tr)"
proof -
  from u obtain a where a: "atoms w p = Some a"
    and i: "i \<notin> fst ` set (DAList.impl_of (atom_listeners a))"
    by (auto simp: unregistered_def split: option.splits)
  from perform_cases [OF a, of E x] show ?thesis
  proof (elim disjE exE conjE)
    fix v w' assume "perform E p x w = Some (store_and_notify E p a v w')"
    with store_and_notify_not_invoked [OF i, of E p v w'] show ?thesis
      by (cases "store_and_notify E p a v w'") auto
  qed auto
qed

lemma perform_keeps_unregistered:
  assumes k: "client_keeps_unregistered E p i" and u: "unregistered p i w"
    and p: "perform E p x w = Some (r, tr, w')"
  shows "unregistered p i w'"
proof -
  from u obtain a where a: "atoms w p = Some a"
    by (auto simp: unregistered_def split: option.splits)
  from perform_cases [OF a, of E x] show ?thesis
  proof (elim disjE exE conjE)
    fix v w1 assume e: "atoms w1 = atoms w" and s: "perform E p x w = Some (store_and_notify E p a v w1)"
    from e a u have "atoms w1 p = Some a" "unregistered p i w1" by (simp_all add: unregistered_def)
    from s p have "store_and_notify E p a v w1 = (r, tr, w')" by simp
    with store_and_notify_keeps_unregistered [OF k \<open>atoms w1 p = Some a\<close>
        \<open>unregistered p i w1\<close>, of v]
    show ?thesis by simp
  next
    fix w1 assume "perform E p x w = Some (Returned, [], w1)" "atoms w1 = atoms w"
    with p u show ?thesis by (simp add: unregistered_def)
  next
    fix e w1 assume "perform E p x w = Some (Thrown e, [], w1)" "atoms w1 = atoms w"
    with p u show ?thesis by (simp add: unregistered_def)
  qed
qed

lemma writes_unregistered:
  assumes k: "client_keeps_unregistered E p i"
  shows "unregistered p i w \<Longrightarrow>
         \<exists>tr w'. writes E p xs w = Some (tr, w') \<and>
           i \<notin> fst ` set (invocations tr) \<and> unregistered p i w'"
proof (induction xs arbitrary: w)
  case Nil
  then show ?case by simp
next
  case (Cons x xs)
  from perform_not_invoked [OF Cons.prems, of E x]
  obtain r tr1 w1 where p1: "perform E p x w = Some (r, tr1, w1)"
    and i1: "i \<notin> fst ` set (invocations tr1)" by blast
  from perform_keeps_unregistered [OF k Cons.prems p1] have u1: "unregistered p i w1" .
  from Cons.IH [OF u1]
  obtain tr2 w2 where p2: "writes E p xs w1 = Some (tr2, w2)"
    and i2: "i \<notin> fst ` set (invocations tr2)" and u2: "unregistered p i w2" by blast
  from p1 p2 i1 i2 u2 show ?case by (auto simp: invocations_append)
qed


lemma plain_env_keeps_unregistered: "client_keeps_unregistered plain_env p i"
proof -
  have c: "unregistered p i (snd (plain_call c v w)) = unregistered p i w" for c v w
    by (cases c) (simp_all add: unregistered_def)
  have r: "unregistered p i (snd (demo_report s e w)) = unregistered p i w" for s e w
    by (cases s) simp_all
  from c r show ?thesis by (simp add: client_keeps_unregistered_def plain_env_def)
qed

section \<open>The claims\<close>

subsection \<open>C1: one notification for each accepted change\<close>

text \<open>
  Claim C1, as amended. Take a cell that is alive and holds \<open>u\<close>, and a call of
  \<^verbatim>\<open>set(v)\<close>, or of \<^verbatim>\<open>update\<close> with an updater that returns \<open>v\<close>, that the equality test
  does not filter. The call returns or throws, and the listeners it has called are an
  initial part of the registry as it was when \<open>v\<close> was stored, each called with \<open>v\<close>:
  so every call receives the stored value, whatever the cell holds by then, no listener
  is called twice, and a listener registered during the dispatch is not called. When the
  call returns to its caller, every listener of that registry has been called exactly
  once. (The claim as stated promises the last part for every accepted write; it fails
  when the error sink throws, see the counterexample.)
\<close>

theorem notify_per_accepted_write:
  assumes "Atom_get p w = Some u" and "\<not> skips E v u"
  shows "(case Atom_set E p v w of
            None \<Rightarrow> False
          | Some (r, tr, w') \<Rightarrow>
              prefix (invocations tr) (deliveries (registry p w) v) \<and>
              distinct (map fst (invocations tr)) \<and>
              (r = Returned \<longrightarrow> invocations tr = deliveries (registry p w) v)) \<and>
         (updater u (client w) = (Inr v, x) \<longrightarrow>
            (case Atom_update E p updater w of
               None \<Rightarrow> False
             | Some (r, tr, w') \<Rightarrow>
                 prefix (invocations tr) (deliveries (registry p w) v) \<and>
                 distinct (map fst (invocations tr)) \<and>
                 (r = Returned \<longrightarrow> invocations tr = deliveries (registry p w) v)))"
proof -
  from alive_cell [OF assms(1)] obtain a where a: "atoms w p = Some a" "atom_value a = u"
    and reg: "registry p w = DAList.impl_of (atom_listeners a)" by blast
  from assms(2) a have acc: "\<not> skips E v (atom_value a)" by simp
  have first: "case Atom_set E p v w of
            None \<Rightarrow> False
          | Some (r, tr, w') \<Rightarrow>
              prefix (invocations tr) (deliveries (registry p w) v) \<and>
              distinct (map fst (invocations tr)) \<and>
              (r = Returned \<longrightarrow> invocations tr = deliveries (registry p w) v)"
  proof -
    obtain r tr w' where s: "store_and_notify E p a v w = (r, tr, w')"
      by (cases "store_and_notify E p a v w") auto
    from accepted_set [OF a(1) acc] s have "Atom_set E p v w = Some (r, tr, w')" by simp
    with store_and_notify_dispatch [OF s] reg show ?thesis by simp
  qed
  have second: "case Atom_update E p updater w of
               None \<Rightarrow> False
             | Some (r, tr, w') \<Rightarrow>
                 prefix (invocations tr) (deliveries (registry p w) v) \<and>
                 distinct (map fst (invocations tr)) \<and>
                 (r = Returned \<longrightarrow> invocations tr = deliveries (registry p w) v)"
    if u: "updater u (client w) = (Inr v, x)"
  proof -
    obtain r tr w' where s: "store_and_notify E p a v (w\<lparr>client := x\<rparr>) = (r, tr, w')"
      by (cases "store_and_notify E p a v (w\<lparr>client := x\<rparr>)") auto
    from u a have "updater (atom_value a) (client w) = (Inr v, x)" by simp
    with a(1) acc s have "Atom_update E p updater w = Some (r, tr, w')"
      by (simp add: accepted_update)
    with store_and_notify_dispatch [OF s] reg show ?thesis by simp
  qed
  from first second show ?thesis by blast
qed

text \<open>
  The theorem at a cell with three listeners: the first subscribes a listener during the
  dispatch, the second calls \<^verbatim>\<open>set(99)\<close> during the dispatch, the third records what it
  receives. \<^verbatim>\<open>set(5)\<close> calls exactly the three, each with \<open>5\<close>, although the cell
  holds \<open>99\<close> when the third one runs. The inner \<^verbatim>\<open>set(99)\<close> has called the listener
  that was added during the outer dispatch, and has added another.
\<close>

theorem notify_per_accepted_write_witness:
  "Atom_get 0 (demo_world (Some Logger) [Joiner, Rewriter, Counter]) = Some 0 \<and>
   \<not> skips demo_env 5 0 \<and>
   add_five 0 (client (demo_world (Some Logger) [Joiner, Rewriter, Counter])) = (Inr 5, []) \<and>
   (case Atom_set demo_env 0 5 (demo_world (Some Logger) [Joiner, Rewriter, Counter]) of
      None \<Rightarrow> False
    | Some (r, tr, w') \<Rightarrow>
        r = Returned \<and>
        invocations tr = [(0, Joiner, 5), (1, Rewriter, 5), (2, Counter, 5)] \<and>
        distinct (map fst (invocations tr)) \<and>
        registry 0 w' = [(0, Joiner), (1, Rewriter), (2, Counter), (3, Counter), (4, Counter)] \<and>
        Atom_get 0 w' = Some 99 \<and>
        client w' = [99, 99, 5]) \<and>
   (case Atom_update demo_env 0 add_five (demo_world (Some Logger) [Joiner, Rewriter, Counter]) of
      None \<Rightarrow> False
    | Some (r, tr, w') \<Rightarrow>
        r = Returned \<and>
        invocations tr = [(0, Joiner, 5), (1, Rewriter, 5), (2, Counter, 5)] \<and>
        distinct (map fst (invocations tr)))"
proof -
  let ?W = "demo_world (Some Logger) [Joiner, Rewriter, Counter]"
  have h1: "Atom_get 0 ?W = Some 0" by (simp add: demo_simps)
  have h2: "\<not> skips demo_env 5 0" by (simp add: demo_simps)
  have h3: "add_five 0 (client ?W) = (Inr 5, [])" by (simp add: demo_simps)
  have reg: "deliveries (registry 0 ?W) 5 = [(0, Joiner, 5), (1, Rewriter, 5), (2, Counter, 5)]"
    by (simp add: demo_simps deliveries_def)
  have run: "map_option (\<lambda>(r, tr, w'). (r, registry 0 w', Atom_get 0 w', client w'))
               (Atom_set demo_env 0 5 ?W) =
             Some (Returned, [(0, Joiner), (1, Rewriter), (2, Counter), (3, Counter), (4, Counter)],
                   Some 99, [99, 99, 5])"
    by (simp add: demo_simps)
  have upd: "map_option fst (Atom_update demo_env 0 add_five ?W) = Some Returned"
    by (simp add: demo_simps)
  note t = notify_per_accepted_write [OF h1 h2, of add_five "[]"]
  from t h3 reg run upd h1 h2 show ?thesis
    by (auto split: option.splits prod.splits)
qed

text \<open>
  The claim as stated fails: two listeners that throw, and a sink that rethrows. The
  first failure reaches the sink, the sink's exception leaves \<^verbatim>\<open>notify\<close>, and the
  other listener is never called for this accepted write. Both listeners throw, so the
  order in which the table is iterated does not matter.
\<close>

theorem notify_per_accepted_write_counterexample:
  "Atom_get 0 (demo_world (Some Rethrower) [Bomb, Bomb]) = Some 0 \<and>
   \<not> skips demo_env 7 0 \<and>
   map_option (invocations \<circ> fst \<circ> snd)
     (Atom_set demo_env 0 7 (demo_world (Some Rethrower) [Bomb, Bomb])) \<noteq>
   Some (deliveries (registry 0 (demo_world (Some Rethrower) [Bomb, Bomb])) 7) \<and>
   registry 0 (demo_world (Some Rethrower) [Bomb, Bomb]) = [(0, Bomb), (1, Bomb)] \<and>
   map_option (invocations \<circ> fst \<circ> snd)
     (Atom_set demo_env 0 7 (demo_world (Some Rethrower) [Bomb, Bomb])) =
   Some [(0, Bomb, 7)]"
  by (simp add: demo_simps deliveries_def)

subsection \<open>C2: a write of an equal value does nothing\<close>

text \<open>
  Claim C2. For a type with \<^verbatim>\<open>operator==\<close> and a cell that is alive and holds \<open>u\<close>:
  \<^verbatim>\<open>set(v)\<close> with \<open>v == u\<close> returns, calls no listener and leaves the world as it was,
  and so does \<^verbatim>\<open>update\<close> when the updater returns such a \<open>v\<close>, up to the client state that
  the updater itself has produced: value, registry and id counter of the cell are
  unchanged.
\<close>

theorem skip_on_equal:
  assumes "Atom_get p w = Some u" and "equal_T E = Some eq"
  shows "(eq v u \<longrightarrow> Atom_set E p v w = Some (Returned, [], w)) \<and>
         (updater u (client w) = (Inr v, x) \<and> eq v u \<longrightarrow>
            Atom_update E p updater w = Some (Returned, [], w\<lparr>client := x\<rparr>) \<and>
            atoms (w\<lparr>client := x\<rparr>) = atoms w)"
proof -
  from alive_cell [OF assms(1)] obtain a where "atoms w p = Some a" "atom_value a = u"
    by blast
  with assms(2) show ?thesis
    by (auto simp: Atom_set_def Atom_update_def skips_def)
qed

text \<open>
  The theorem at a cell that holds \<open>0\<close> and has a recording listener: \<^verbatim>\<open>set(0)\<close>, and
  \<^verbatim>\<open>update\<close> with an updater that returns its argument.
\<close>

theorem skip_on_equal_witness:
  "Atom_get 0 (demo_world (Some Logger) [Counter]) = Some 0 \<and>
   equal_T demo_env = Some (=) \<and>
   (0::int) = 0 \<and>
   total_updater id 0 (client (demo_world (Some Logger) [Counter])) =
     (Inr (0::int) :: string + int, []) \<and>
   Atom_set demo_env 0 0 (demo_world (Some Logger) [Counter]) =
     Some (Returned, [], demo_world (Some Logger) [Counter]) \<and>
   Atom_update demo_env 0 (total_updater id) (demo_world (Some Logger) [Counter]) =
     Some (Returned, [], (demo_world (Some Logger) [Counter])\<lparr>client := []\<rparr>) \<and>
   client (demo_world (Some Logger) [Counter]) = []"
proof -
  let ?W = "demo_world (Some Logger) [Counter]"
  have h1: "Atom_get 0 ?W = Some 0" by (simp add: demo_simps)
  have h2: "equal_T demo_env = Some (=)" by (simp add: demo_simps)
  have h3: "total_updater id 0 (client ?W) = (Inr (0::int) :: string + int, [])"
    by (simp add: demo_simps total_updater_def)
  have c: "client ?W = []" by (simp add: demo_simps)
  note t = skip_on_equal [OF h1 h2, of 0 "total_updater id" "[]"]
  from t have a: "Atom_set demo_env 0 0 ?W = Some (Returned, [], ?W)" by blast
  from t h3 have b: "Atom_update demo_env 0 (total_updater id) ?W =
                       Some (Returned, [], ?W\<lparr>client := []\<rparr>)" by blast
  from h1 h2 h3 c a b show ?thesis by blast
qed

subsection \<open>C3: a failing listener\<close>

text \<open>
  Claim C3, as amended. Take a cell that is alive and holds \<open>u\<close>, and an accepted
  \<^verbatim>\<open>set(v)\<close> or \<^verbatim>\<open>update\<close>. In its dispatch every exception of a listener is caught,
  and with a sink configured the calls of the sink are exactly the caught exceptions, one
  call for each, in their order; with no sink there is no call. When every call of the
  sink that this dispatch makes returns (in particular when it makes none), the write
  returns to its caller and every listener of the snapshot has been called with \<open>v\<close>,
  those after a failing one included. (The claim as stated promises this for every
  dispatch; it fails when a call of the sink throws, see the counterexample.)
\<close>

theorem observer_failure_isolated:
  assumes "Atom_get p w = Some u" and "\<not> skips E v u"
  shows "(case Atom_set E p v w of
            None \<Rightarrow> False
          | Some (r, tr, w') \<Rightarrow>
              reports tr =
                (case error_sink p w of None \<Rightarrow> [] | Some s \<Rightarrow> map (Pair s) (failures tr)) \<and>
              ((\<forall>x \<in> set (sink_outcomes tr). x = Returned) \<longrightarrow>
                 r = Returned \<and> invocations tr = deliveries (registry p w) v)) \<and>
         (updater u (client w) = (Inr v, x) \<longrightarrow>
            (case Atom_update E p updater w of
               None \<Rightarrow> False
             | Some (r, tr, w') \<Rightarrow>
                 reports tr =
                   (case error_sink p w of None \<Rightarrow> [] | Some s \<Rightarrow> map (Pair s) (failures tr)) \<and>
                 ((\<forall>x \<in> set (sink_outcomes tr). x = Returned) \<longrightarrow>
                    r = Returned \<and> invocations tr = deliveries (registry p w) v)))"
proof -
  from alive_cell [OF assms(1)] obtain a where a: "atoms w p = Some a" "atom_value a = u"
    and reg: "registry p w = DAList.impl_of (atom_listeners a)"
    and snk: "error_sink p w = atom_on_error a" by blast
  from assms(2) a have acc: "\<not> skips E v (atom_value a)" by simp
  have first: "case Atom_set E p v w of
            None \<Rightarrow> False
          | Some (r, tr, w') \<Rightarrow>
              reports tr =
                (case error_sink p w of None \<Rightarrow> [] | Some s \<Rightarrow> map (Pair s) (failures tr)) \<and>
              ((\<forall>x \<in> set (sink_outcomes tr). x = Returned) \<longrightarrow>
                 r = Returned \<and> invocations tr = deliveries (registry p w) v)"
  proof -
    obtain r tr w' where s: "store_and_notify E p a v w = (r, tr, w')"
      by (cases "store_and_notify E p a v w") auto
    from accepted_set [OF a(1) acc] s have "Atom_set E p v w = Some (r, tr, w')" by simp
    with store_and_notify_failures [OF s] reg snk show ?thesis by simp
  qed
  have second: "case Atom_update E p updater w of
               None \<Rightarrow> False
             | Some (r, tr, w') \<Rightarrow>
                 reports tr =
                   (case error_sink p w of None \<Rightarrow> [] | Some s \<Rightarrow> map (Pair s) (failures tr)) \<and>
                 ((\<forall>x \<in> set (sink_outcomes tr). x = Returned) \<longrightarrow>
                    r = Returned \<and> invocations tr = deliveries (registry p w) v)"
    if u: "updater u (client w) = (Inr v, x)"
  proof -
    obtain r tr w' where s: "store_and_notify E p a v (w\<lparr>client := x\<rparr>) = (r, tr, w')"
      by (cases "store_and_notify E p a v (w\<lparr>client := x\<rparr>)") auto
    from u a have "updater (atom_value a) (client w) = (Inr v, x)" by simp
    with a(1) acc s have "Atom_update E p updater w = Some (r, tr, w')"
      by (simp add: accepted_update)
    with store_and_notify_failures [OF s] reg snk show ?thesis by simp
  qed
  from first second show ?thesis by blast
qed

text \<open>
  The theorem at the third scenario of the specification, with a sink that returns on
  \<open>''boom''\<close> and would throw on anything else: a listener that throws \<open>''boom''\<close>, then
  one that records. \<^verbatim>\<open>set(10)\<close> returns, the recording listener has received \<open>10\<close>, and
  the sink has been called once, with \<open>''boom''\<close>, and has returned.
\<close>

theorem observer_failure_isolated_witness:
  "Atom_get 0 (demo_world (Some Catcher) [Bomb, Counter]) = Some 0 \<and>
   \<not> skips demo_env 10 0 \<and>
   total_updater ((+) 10) 0 (client (demo_world (Some Catcher) [Bomb, Counter])) =
     (Inr (10::int) :: string + int, []) \<and>
   fst (demo_report Catcher ''crash'' (demo_world (Some Catcher) [Bomb, Counter])) =
     Thrown ''crash'' \<and>
   (case Atom_set demo_env 0 10 (demo_world (Some Catcher) [Bomb, Counter]) of
      None \<Rightarrow> False
    | Some (r, tr, w') \<Rightarrow>
        sink_outcomes tr = [Returned] \<and>
        r = Returned \<and>
        invocations tr = [(0, Bomb, 10), (1, Counter, 10)] \<and>
        failures tr = [''boom''] \<and>
        reports tr = [(Catcher, ''boom'')] \<and>
        client w' = [10]) \<and>
   (case Atom_update demo_env 0 (total_updater ((+) 10)) (demo_world (Some Catcher) [Bomb, Counter]) of
      None \<Rightarrow> False
    | Some (r, tr, w') \<Rightarrow>
        sink_outcomes tr = [Returned] \<and>
        r = Returned \<and>
        invocations tr = [(0, Bomb, 10), (1, Counter, 10)] \<and>
        failures tr = [''boom''] \<and>
        reports tr = [(Catcher, ''boom'')] \<and>
        client w' = [10])"
proof -
  let ?W = "demo_world (Some Catcher) [Bomb, Counter]"
  have h1: "Atom_get 0 ?W = Some 0" by (simp add: demo_simps)
  have h2: "\<not> skips demo_env 10 0" by (simp add: demo_simps)
  have h3: "total_updater ((+) 10) 0 (client ?W) = (Inr (10::int) :: string + int, [])"
    by (simp add: demo_simps total_updater_def)
  have other: "fst (demo_report Catcher ''crash'' ?W) = Thrown ''crash''" by simp
  have snk: "error_sink 0 ?W = Some Catcher" by (simp add: demo_simps)
  have reg: "deliveries (registry 0 ?W) 10 = [(0, Bomb, 10), (1, Counter, 10)]"
    by (simp add: demo_simps deliveries_def)
  have run: "map_option (\<lambda>(r, tr, w'). (sink_outcomes tr, failures tr, client w'))
               (Atom_set demo_env 0 10 ?W) =
             Some ([Returned], [''boom''], [10])"
    by (simp add: demo_simps)
  have upd: "map_option (\<lambda>(r, tr, w'). (sink_outcomes tr, failures tr, client w'))
               (Atom_update demo_env 0 (total_updater ((+) 10)) ?W) =
             Some ([Returned], [''boom''], [10])"
    by (simp add: demo_simps total_updater_def)
  note t = observer_failure_isolated [OF h1 h2, of "total_updater ((+) 10)" "[]"]
  from t snk reg run upd h1 h2 h3 other show ?thesis
    by (auto split: option.splits prod.splits)
qed

text \<open>
  The claim as stated fails: the same listeners with one more throwing listener and a
  sink that rethrows. The first listener's \<open>''boom''\<close> leaves \<^verbatim>\<open>set\<close> towards the caller,
  and the two other listeners of the snapshot are never called. In whatever order the
  table is iterated, a throwing listener comes before the last one.
\<close>

theorem observer_failure_isolated_counterexample:
  "Atom_get 0 (demo_world (Some Rethrower) [Bomb, Counter, Bomb]) = Some 0 \<and>
   \<not> skips demo_env 10 0 \<and>
   registry 0 (demo_world (Some Rethrower) [Bomb, Counter, Bomb]) =
     [(0, Bomb), (1, Counter), (2, Bomb)] \<and>
   map_option fst (Atom_set demo_env 0 10 (demo_world (Some Rethrower) [Bomb, Counter, Bomb])) =
     Some (Thrown ''boom'') \<and>
   map_option (fst \<circ> snd) (Atom_set demo_env 0 10 (demo_world (Some Rethrower) [Bomb, Counter, Bomb])) =
     Some [Invoked 0 Bomb 10 (Thrown ''boom''), Reported Rethrower ''boom'' (Thrown ''boom'')]"
  by (simp add: demo_simps)

subsection \<open>C4: a failing updater\<close>

text \<open>
  Claim C4. When the updater throws \<open>e\<close> on the current value of a cell that is alive,
  \<^verbatim>\<open>update\<close> throws \<open>e\<close> to its caller, no listener is called, and the cells of the world
  are as before: value, registry and id counter are unchanged. The client state is what
  the updater left.
\<close>

theorem updater_failure_propagates:
  assumes "Atom_get p w = Some u" and "updater u (client w) = (Inl e, x)"
  shows "Atom_update E p updater w = Some (Thrown e, [], w\<lparr>client := x\<rparr>) \<and>
         atoms (w\<lparr>client := x\<rparr>) = atoms w"
proof -
  from alive_cell [OF assms(1)] obtain a where "atoms w p = Some a" "atom_value a = u"
    by blast
  with assms(2) show ?thesis by (simp add: Atom_update_def)
qed

text \<open>The theorem at a cell with a recording listener and an updater that throws.\<close>

theorem updater_failure_propagates_witness:
  "Atom_get 0 (demo_world (Some Logger) [Counter]) = Some 0 \<and>
   failing_updater 0 (client (demo_world (Some Logger) [Counter])) = (Inl ''bad update'', []) \<and>
   Atom_update demo_env 0 failing_updater (demo_world (Some Logger) [Counter]) =
     Some (Thrown ''bad update'', [], (demo_world (Some Logger) [Counter])\<lparr>client := []\<rparr>) \<and>
   atoms ((demo_world (Some Logger) [Counter])\<lparr>client := []\<rparr>) =
     atoms (demo_world (Some Logger) [Counter])"
proof -
  let ?W = "demo_world (Some Logger) [Counter]"
  have h1: "Atom_get 0 ?W = Some 0" by (simp add: demo_simps)
  have h2: "failing_updater 0 (client ?W) = (Inl ''bad update'', [])" by (simp add: demo_simps)
  note t = updater_failure_propagates
             [of 0 ?W 0 failing_updater "''bad update''" "[]" demo_env, OF h1 h2]
  from t h1 h2 show ?thesis by blast
qed

subsection \<open>C5: a sequence of updates\<close>




subsection \<open>C6: release and end of scope\<close>

text \<open>
  Claim C6. Take a handle whose owner is a cell that is alive. The destructor and
  \<^verbatim>\<open>unsubscribe\<close> leave the same world. In it the registry of the cell is the former one
  without the handle's key, so the key is unregistered. A \<^verbatim>\<open>set\<close> or \<^verbatim>\<open>update\<close> made in
  any world where the key is unregistered calls no listener under that key. And when the
  client code (listeners and sink) does not register the key again, which a later
  \<^verbatim>\<open>subscribe\<close> would do only for another listener, no call of any sequence of \<^verbatim>\<open>set\<close>
  and \<^verbatim>\<open>update\<close> made after the release calls a listener under the key, and the key is
  still unregistered at the end.
\<close>

theorem release_stops_notifications:
  assumes "sub_owner s = Some p" and "Atom_get p w = Some u"
  shows "Subscription_dtor s w = snd (unsubscribe s w) \<and>
         registry p (snd (unsubscribe s w)) = AList.delete (sub_id s) (registry p w) \<and>
         unregistered p (sub_id s) (snd (unsubscribe s w)) \<and>
         (unregistered p (sub_id s) w2 \<longrightarrow>
            (case perform E p x w2 of
               None \<Rightarrow> False
             | Some (r, tr, w3) \<Rightarrow> sub_id s \<notin> fst ` set (invocations tr))) \<and>
         (client_keeps_unregistered E p (sub_id s) \<longrightarrow>
            (case writes E p xs (snd (unsubscribe s w)) of
               None \<Rightarrow> False
             | Some (tr, w') \<Rightarrow>
                 sub_id s \<notin> fst ` set (invocations tr) \<and> unregistered p (sub_id s) w'))"
proof -
  from alive_cell [OF assms(2)] obtain a where a: "atoms w p = Some a" by blast
  have u: "unregistered p (sub_id s) (erase_listener s w)"
    using assms(1) a by (rule erase_listener_unregistered)
  have one: "case perform E p x w2 of
               None \<Rightarrow> False
             | Some (r, tr, w3) \<Rightarrow> sub_id s \<notin> fst ` set (invocations tr)"
    if "unregistered p (sub_id s) w2"
    using perform_not_invoked [OF that, of E x] by auto
  have many: "case writes E p xs (erase_listener s w) of
            None \<Rightarrow> False
          | Some (tr, w') \<Rightarrow>
              sub_id s \<notin> fst ` set (invocations tr) \<and> unregistered p (sub_id s) w'"
    if "client_keeps_unregistered E p (sub_id s)"
    using writes_unregistered [OF that u, of xs] by auto
  from assms(1) u one many show ?thesis
    by (simp add: Subscription_dtor_def unsubscribe_def erase_listener_registry)
qed

text \<open>
  The theorem at a cell with a recording listener (key \<open>0\<close>) and a throwing one (key
  \<open>1\<close>): the handle of the first is released, then \<^verbatim>\<open>set(1)\<close>, an update that adds five
  and \<^verbatim>\<open>set(3)\<close> call the throwing listener only, and nothing is recorded.
\<close>

theorem release_stops_notifications_witness:
  "sub_owner (Subscription (Some 0) 0) = Some 0 \<and>
   Atom_get 0 (demo_world (Some Logger) [Counter, Bomb]) = Some 0 \<and>
   unregistered 0 (sub_id (Subscription (Some 0) 0))
     (snd (unsubscribe (Subscription (Some 0) 0) (demo_world (Some Logger) [Counter, Bomb]))) \<and>
   client_keeps_unregistered plain_env 0 (sub_id (Subscription (Some 0) 0)) \<and>
   registry 0 (demo_world (Some Logger) [Counter, Bomb]) = [(0, Counter), (1, Bomb)] \<and>
   registry 0 (snd (unsubscribe (Subscription (Some 0) 0) (demo_world (Some Logger) [Counter, Bomb])))
     = [(1, Bomb)] \<and>
   registry 0 (Subscription_dtor (Subscription (Some 0) 0) (demo_world (Some Logger) [Counter, Bomb]))
     = [(1, Bomb)] \<and>
   (case perform plain_env 0 (Write 1)
           (snd (unsubscribe (Subscription (Some 0) 0) (demo_world (Some Logger) [Counter, Bomb]))) of
      None \<Rightarrow> False
    | Some (r, tr, w3) \<Rightarrow> 0 \<notin> fst ` set (invocations tr)) \<and>
   (case writes plain_env 0 [Write 1, Amend add_five, Write 3]
           (snd (unsubscribe (Subscription (Some 0) 0) (demo_world (Some Logger) [Counter, Bomb]))) of
      None \<Rightarrow> False
    | Some (tr, w') \<Rightarrow>
        0 \<notin> fst ` set (invocations tr) \<and> unregistered 0 0 w' \<and>
        invocations tr = [(1, Bomb, 1), (1, Bomb, 6), (1, Bomb, 3)] \<and> client w' = [])"
proof -
  let ?s = "Subscription (Some 0) 0"
  let ?W = "demo_world (Some Logger) [Counter, Bomb]"
  have h1: "sub_owner ?s = Some 0" by (simp add: Subscription_def)
  have h2: "Atom_get 0 ?W = Some 0" by (simp add: demo_simps)
  have h3: "client_keeps_unregistered plain_env 0 (sub_id ?s)"
    by (rule plain_env_keeps_unregistered)
  have i: "sub_id ?s = 0" by (simp add: Subscription_def)
  have reg: "registry 0 ?W = [(0, Counter), (1, Bomb)]" by (simp add: demo_simps)
  have run: "map_option (\<lambda>(tr, w'). (invocations tr, client w'))
               (writes plain_env 0 [Write 1, Amend add_five, Write 3] (snd (unsubscribe ?s ?W))) =
             Some ([(1, Bomb, 1), (1, Bomb, 6), (1, Bomb, 3)], [])"
    by (simp add: demo_simps unsubscribe_def erase_listener_def lock_def Subscription_def)
  note t = release_stops_notifications [OF h1 h2,
      of "snd (unsubscribe ?s ?W)" plain_env "Write 1" "[Write 1, Amend add_five, Write 3]"]
  from t h1 h2 h3 i reg run show ?thesis
    by (auto split: option.splits prod.splits)
qed

subsection \<open>C7: moving a handle\<close>

text \<open>
  Claim C7. The move constructor builds \<open>b\<close> from \<open>a\<close> and leaves \<open>a'\<close>. The owner of
  \<open>a'\<close> is empty, and releasing or destroying \<open>a'\<close> leaves the world as it is. Releasing
  \<open>b\<close> removes the key of \<open>a\<close> from the registry of the owner of \<open>a\<close> and touches no
  other registry; after that, releasing \<open>b\<close> again or releasing \<open>a'\<close> changes nothing, so
  the listener is unregistered once. The move assignment of another object \<open>new\<close> to
  \<open>this\<close> leaves the world that the destructor of the old \<open>this\<close> would leave (its key is
  erased from its owner), then \<open>this\<close> holds the owner and key of \<open>new\<close>, and what is left
  of \<open>new\<close> has an empty owner and the key \<open>0\<close>.
\<close>

theorem move_uniqueness:
  "(case Subscription_move a of
      (b, a') \<Rightarrow>
        sub_owner a' = None \<and>
        unsubscribe a' w = (a', w) \<and>
        Subscription_dtor a' w = w \<and>
        registry q (snd (unsubscribe b w)) =
          (if sub_owner a = Some q then AList.delete (sub_id a) (registry q w)
           else registry q w) \<and>
        (case unsubscribe b w of
           (b', w1) \<Rightarrow> unsubscribe b' w1 = (b', w1) \<and> unsubscribe a' w1 = (a', w1))) \<and>
   (case Subscription_move_assign this (Other new) w of
      (this', rhs', w') \<Rightarrow>
        w' = Subscription_dtor this w \<and>
        registry q w' =
          (if sub_owner this = Some q then AList.delete (sub_id this) (registry q w)
           else registry q w) \<and>
        this' = new \<and>
        rhs' = Other (Subscription None 0))"
  by (simp add: Subscription_move_def unsubscribe_def Subscription_dtor_def Subscription_def
        erase_listener_registry erase_listener_released erase_listener_inert Let_def)

text \<open>
  The theorem at the sixth scenario of the specification: a cell with two listeners, the
  handle of the first is moved; and the same handle is assigned the handle of the second.
\<close>

theorem move_uniqueness_witness:
  "snd (Subscription_move (Subscription (Some 0) 0)) = Subscription None 0 \<and>
   registry 0 (demo_world None [Counter, Bomb]) = [(0, Counter), (1, Bomb)] \<and>
   unsubscribe (Subscription None 0) (demo_world None [Counter, Bomb]) =
     (Subscription None 0, demo_world None [Counter, Bomb]) \<and>
   Subscription_dtor (Subscription None 0) (demo_world None [Counter, Bomb]) =
     demo_world None [Counter, Bomb] \<and>
   registry 0 (snd (unsubscribe (fst (Subscription_move (Subscription (Some 0) 0)))
                      (demo_world None [Counter, Bomb]))) = [(1, Bomb)] \<and>
   fst (Subscription_move_assign (Subscription (Some 0) 0) (Other (Subscription (Some 0) 1))
          (demo_world None [Counter, Bomb])) = Subscription (Some 0) 1 \<and>
   registry 0 (snd (snd (Subscription_move_assign (Subscription (Some 0) 0)
                           (Other (Subscription (Some 0) 1)) (demo_world None [Counter, Bomb]))))
     = [(1, Bomb)]"
proof -
  let ?W = "demo_world None [Counter, Bomb]"
  have reg: "registry 0 ?W = [(0, Counter), (1, Bomb)]" by (simp add: demo_simps)
  have mv: "Subscription_move (Subscription (Some 0) 0) = (Subscription (Some 0) 0, Subscription None 0)"
    by (simp add: Subscription_move_def Subscription_def)
  note t = move_uniqueness [where a = "Subscription (Some 0) 0" and w = ?W and q = 0
      and this = "Subscription (Some 0) 0" and new = "Subscription (Some 0) 1"]
  from t reg mv show ?thesis
    by (auto simp: Subscription_def split: prod.splits)
qed

subsection \<open>C8: releasing a released or orphaned handle\<close>

text \<open>
  Claim C8. For a handle whose owner is empty (it has been released or moved from), or
  whose cell is not alive, \<^verbatim>\<open>unsubscribe\<close> and the destructor leave the world as it is;
  both are total functions with no failing branch. For any handle, a second
  \<^verbatim>\<open>unsubscribe\<close> after a first, or the destructor after it, changes nothing. And a
  release or a destruction of any handle leaves alone every registration under another
  key or in another cell.
\<close>

theorem release_noop:
  "(sub_owner s = None \<or> (sub_owner s = Some p \<and> atoms w p = None) \<longrightarrow>
      unsubscribe s w = (s\<lparr>sub_owner := None\<rparr>, w) \<and> Subscription_dtor s w = w) \<and>
   (case unsubscribe s w of
      (s1, w1) \<Rightarrow> unsubscribe s1 w1 = (s1, w1) \<and> Subscription_dtor s1 w1 = w1) \<and>
   (j \<noteq> sub_id s \<or> sub_owner s \<noteq> Some q \<longrightarrow>
      map_of (registry q (snd (unsubscribe s w))) j = map_of (registry q w) j \<and>
      map_of (registry q (Subscription_dtor s w)) j = map_of (registry q w) j)"
  using erase_listener_inert [of s p w]
  by (auto simp: unsubscribe_def Subscription_dtor_def erase_listener_released
        erase_listener_registry)

text \<open>
  The theorem at the fifth scenario of the specification: the cell of a handle has been
  destroyed, then the handle is released and destroyed.
\<close>

theorem release_noop_witness:
  "(sub_owner (Subscription (Some 0) 0) = None \<or>
    (sub_owner (Subscription (Some 0) 0) = Some 0 \<and>
     atoms (destroyAtom 0 (demo_world None [Counter, Bomb])) 0 = None)) \<and>
   (1::64 word) \<noteq> sub_id (Subscription (Some 0) 0) \<and>
   unsubscribe (Subscription (Some 0) 0) (destroyAtom 0 (demo_world None [Counter, Bomb])) =
     (Subscription None 0, destroyAtom 0 (demo_world None [Counter, Bomb])) \<and>
   Subscription_dtor (Subscription (Some 0) 0) (destroyAtom 0 (demo_world None [Counter, Bomb])) =
     destroyAtom 0 (demo_world None [Counter, Bomb]) \<and>
   unsubscribe (Subscription None 0) (destroyAtom 0 (demo_world None [Counter, Bomb])) =
     (Subscription None 0, destroyAtom 0 (demo_world None [Counter, Bomb])) \<and>
   map_of (registry 0 (snd (unsubscribe (Subscription (Some 0) 0)
                              (destroyAtom 0 (demo_world None [Counter, Bomb]))))) 1 =
     map_of (registry 0 (destroyAtom 0 (demo_world None [Counter, Bomb]))) 1"
proof -
  let ?s = "Subscription (Some 0) 0"
  let ?W = "destroyAtom 0 (demo_world None [Counter, Bomb])"
  have h1: "sub_owner ?s = None \<or> (sub_owner ?s = Some 0 \<and> atoms ?W 0 = None)"
    by (simp add: Subscription_def destroyAtom_def)
  have h2: "(1::64 word) \<noteq> sub_id ?s" by (simp add: Subscription_def)
  have r: "?s\<lparr>sub_owner := None\<rparr> = Subscription None 0" by (simp add: Subscription_def)
  note t = release_noop [where s = ?s and p = 0 and w = ?W and j = 1 and q = 0]
  from t h1 h2 r show ?thesis
    by (auto split: prod.splits)
qed

subsection \<open>C10: the inert handle and the key \<open>0\<close>\<close>

text \<open>
  Claim C10. What the move constructor and the move assignment leave of their source has
  an empty owner (and the key \<open>0\<close>); a handle has an empty owner after \<^verbatim>\<open>unsubscribe\<close>;
  a placeholder built with an empty pointer has one. For a handle \<open>h\<close> with an empty
  owner, \<^verbatim>\<open>unsubscribe\<close>, the destructor and being the target of a move assignment (of
  itself or of another object) leave the world as it is. The first \<^verbatim>\<open>subscribe\<close> of a new
  cell hands out the key \<open>0\<close>, the value that a moved-from handle holds; the listener
  registered under it is still registered after each of these operations on such a
  handle.
\<close>

theorem inert_handle_harmless:
  "sub_owner (snd (Subscription_move s)) = None \<and>
   sub_id (snd (Subscription_move s)) = 0 \<and>
   fst (snd (Subscription_move_assign t (Other s) w)) = Other (Subscription None 0) \<and>
   sub_owner (fst (unsubscribe s w)) = None \<and>
   sub_owner (Subscription None i) = None \<and>
   (sub_owner h = None \<longrightarrow>
      unsubscribe h w = (h, w) \<and>
      Subscription_dtor h w = w \<and>
      snd (snd (Subscription_move_assign h r w)) = w) \<and>
   (case createAtom v0 sink w of
      (p, w0) \<Rightarrow>
        (case Atom_subscribe p c w0 of
           None \<Rightarrow> False
         | Some (first, w1) \<Rightarrow>
             first = Subscription (Some p) 0 \<and>
             registry p w1 = [(0, c)] \<and>
             (sub_owner h = None \<and> sub_id h = 0 \<longrightarrow>
                registry p (snd (unsubscribe h w1)) = [(0, c)] \<and>
                registry p (Subscription_dtor h w1) = [(0, c)] \<and>
                registry p (snd (snd (Subscription_move_assign h r w1))) = [(0, c)])))"
proof -
  have inert: "erase_listener h w' = w'" if "sub_owner h = None" for w' :: "('a, 'b, 'c, 'd) world"
    using that by (simp add: erase_listener_def lock_def)
  have assign: "snd (snd (Subscription_move_assign h r w')) = erase_listener h w' \<or>
                snd (snd (Subscription_move_assign h r w')) = w'" for w' :: "('a, 'b, 'c, 'd) world"
    by (cases r) (simp_all add: Let_def)
  show ?thesis
    using inert assign
    by (auto simp: Subscription_move_def unsubscribe_def Subscription_dtor_def Subscription_def
          createAtom_def Atom_subscribe_def registry_def Let_def
          DAList.update.rep_eq DAList.empty.rep_eq)
qed

text \<open>
  The theorem at a moved-from handle and a cell whose only listener has the key \<open>0\<close>.
\<close>

theorem inert_handle_harmless_witness:
  "sub_owner (Subscription None 0) = None \<and>
   sub_id (Subscription None 0) = 0 \<and>
   snd (Subscription_move (Subscription (Some 0) 0)) = Subscription None 0 \<and>
   registry 0 (demo_world None [Counter]) = [(0, Counter)] \<and>
   unsubscribe (Subscription None 0) (demo_world None [Counter]) =
     (Subscription None 0, demo_world None [Counter]) \<and>
   Subscription_dtor (Subscription None 0) (demo_world None [Counter]) = demo_world None [Counter] \<and>
   snd (snd (Subscription_move_assign (Subscription None 0) (Other (Subscription (Some 0) 0))
               (demo_world None [Counter]))) = demo_world None [Counter] \<and>
   (case createAtom (0::int) (None :: demo_sink option) world0 of
      (p, w0) \<Rightarrow>
        (case Atom_subscribe p Counter w0 of
           None \<Rightarrow> False
         | Some (first, w1) \<Rightarrow>
             first = Subscription (Some p) 0 \<and>
             registry p w1 = [(0, Counter)] \<and>
             registry p (snd (unsubscribe (Subscription None 0) w1)) = [(0, Counter)] \<and>
             registry p (Subscription_dtor (Subscription None 0) w1) = [(0, Counter)] \<and>
             registry p (snd (snd (Subscription_move_assign (Subscription None 0)
                                     (Other (Subscription (Some 0) 0)) w1))) = [(0, Counter)]))"
proof -
  let ?h = "Subscription None 0"
  let ?W = "demo_world None [Counter]"
  have h1: "sub_owner ?h = None" by (simp add: Subscription_def)
  have h2: "sub_id ?h = 0" by (simp add: Subscription_def)
  have mv: "snd (Subscription_move (Subscription (Some 0) 0)) = ?h"
    by (simp add: Subscription_move_def Subscription_def)
  have reg: "registry 0 ?W = [(0, Counter)]" by (simp add: demo_simps)
  note t1 = inert_handle_harmless [where h = ?h and w = ?W
      and r = "Other (Subscription (Some 0) 0)"]
  note t2 = inert_handle_harmless [where h = ?h and w = world0
      and r = "Other (Subscription (Some 0) 0)" and ?v0.0 = "0::int"
      and sink = "None :: demo_sink option" and c = Counter]
  from t1 h1 have a: "unsubscribe ?h ?W = (?h, ?W) \<and> Subscription_dtor ?h ?W = ?W \<and>
      snd (snd (Subscription_move_assign ?h (Other (Subscription (Some 0) 0)) ?W)) = ?W"
    by blast
  from t2 h1 h2 have b: "case createAtom (0::int) (None :: demo_sink option) world0 of
      (p, w0) \<Rightarrow>
        (case Atom_subscribe p Counter w0 of
           None \<Rightarrow> False
         | Some (first, w1) \<Rightarrow>
             first = Subscription (Some p) 0 \<and>
             registry p w1 = [(0, Counter)] \<and>
             registry p (snd (unsubscribe (Subscription None 0) w1)) = [(0, Counter)] \<and>
             registry p (Subscription_dtor (Subscription None 0) w1) = [(0, Counter)] \<and>
             registry p (snd (snd (Subscription_move_assign (Subscription None 0)
                                     (Other (Subscription (Some 0) 0)) w1))) = [(0, Counter)])"
    by (auto split: prod.splits option.splits)
  from h1 h2 mv reg a b show ?thesis by blast
qed

end
